theory Spec2Isabelle
  imports Main "HOL-Library.Word" "HOL-Library.Sublist"
begin

section \<open>The allocation filesystem client (api/fs.go)\<close>

subsection \<open>Data model\<close>

text \<open>
  Go errors are values. An error built by \<open>fmt.Errorf\<close> is kept as the call that
  builds it: the format string and the arguments, in order. Errors handed over by a
  collaborator (the node registry, the HTTP client, the JSON decoder, the body reader)
  are opaque.
\<close>

datatype error = Errorf string "string list" | External string

text \<open>\<open>AllocFileInfo\<close>: \<open>Size\<close> is an \<open>int64\<close>, \<open>ModTime\<close> an opaque time stamp.\<close>

record AllocFileInfo =
  Name :: string
  IsDir :: bool
  Size :: "64 word"
  FileMode :: string
  ModTime :: int

record StreamFrame =
  Offset :: "64 word"
  Data :: string
  File :: string
  FileEvent :: string

definition IsHeartbeat :: "StreamFrame \<Rightarrow> bool" where
  "IsHeartbeat s \<longleftrightarrow> Data s = '''' \<and> FileEvent s = ''''"

text \<open>
  The fields of \<open>Allocation\<close> and \<open>Node\<close> that fs.go reads. The query options are
  an opaque type \<open>'q\<close>: List, Stat, ReadAt and Cat pass a fresh empty
  \<open>&QueryOptions{}\<close> to the node lookup, Stream passes the caller's pointer (which may
  be nil).
\<close>

record Allocation =
  ID :: string
  NodeID :: string

record Node =
  HTTPAddr :: string

datatype 'q query_arg = EmptyOptions | Caller "'q option"

text \<open>
  An \<open>http.Request\<close> as fs.go fills it: the URL's scheme, host and path, the
  \<open>url.Values\<close> that are encoded into the raw query (a map from key to values), and
  whether the request carries the caller's cancel channel.
\<close>

type_synonym Values = "string \<rightharpoonup> string list"

definition Set_value :: "string \<Rightarrow> string \<Rightarrow> Values \<Rightarrow> Values" where
  "Set_value k v vs = vs(k \<mapsto> [v])"

record Request =
  Method :: string
  Scheme :: string
  Host :: string
  Path :: string
  Query :: Values
  Cancel :: bool

record 'b Response =
  StatusCode :: int
  Body :: 'b

text \<open>
  What successive calls of \<open>dec.Decode(&frame)\<close> on the response body yield: a frame or
  a failure (the end of the body is the failure \<open>io.EOF\<close>). When the list is used
  up, nothing more has arrived and the decoder blocks in its read.
\<close>

datatype decode_result = Frame StreamFrame | Fail error

text \<open>
  The collaborators of fs.go, none of them part of the package's source: the node
  registry (\<open>a.client.Nodes().Info\<close>), the HTTP client (\<open>http.Client.Do\<close>),
  \<open>ioutil.ReadAll\<close> and the JSON decoder at the three types it is used at.
\<close>

record ('b, 'q) env =
  nodes_info :: "string \<Rightarrow> 'q query_arg \<Rightarrow> error + Node"
  http_do :: "Request \<Rightarrow> error + 'b Response"
  read_all :: "'b \<Rightarrow> error + string"
  decode_files :: "'b \<Rightarrow> error + AllocFileInfo option list"
  decode_file :: "'b \<Rightarrow> error + AllocFileInfo option"
  decode_frames :: "'b \<Rightarrow> decode_result list"

subsection \<open>Formatting\<close>

text \<open>\<open>strconv.FormatInt(i, 10)\<close> on an \<open>int64\<close>.\<close>

definition digit_char :: "nat \<Rightarrow> char" where
  "digit_char d = char_of (48 + d)"

fun digits10 :: "nat \<Rightarrow> string" where
  "digits10 n = (if n < 10 then [digit_char n] else digits10 (n div 10) @ [digit_char (n mod 10)])"

declare digits10.simps [simp del]

definition FormatInt10 :: "64 word \<Rightarrow> string" where
  "FormatInt10 w = (if sint w < 0 then CHR ''-'' # digits10 (nat (- sint w)) else digits10 (nat (sint w)))"

text \<open>The error of all five operations when the node advertises no address.\<close>

definition not_advertised :: "Allocation \<Rightarrow> error" where
  "not_advertised alloc =
     Errorf ''http addr of the node where alloc %q is running is not advertised'' [ID alloc]"

subsection \<open>The four dispatcher operations\<close>

text \<open>
  Each operation returns its result (the error or the value; the \<open>*QueryMeta\<close> it
  returns is always nil and is left out) together with the requests it has issued
  through \<open>http.Client.Do\<close>, in order.
\<close>

definition getErrorMsg :: "('b, 'q) env \<Rightarrow> 'b Response \<Rightarrow> error" where
  "getErrorMsg env resp =
     (case read_all env (Body resp) of
        Inr errMsg \<Rightarrow> Errorf errMsg []
      | Inl err \<Rightarrow> err)"

definition fs_request :: "string \<Rightarrow> Node \<Rightarrow> Allocation \<Rightarrow> Values \<Rightarrow> bool \<Rightarrow> Request" where
  "fs_request endpoint node alloc v c =
     \<lparr>Method = ''GET'', Scheme = ''http'', Host = HTTPAddr node,
      Path = endpoint @ ID alloc, Query = v, Cancel = c\<rparr>"

definition List :: "('b, 'q) env \<Rightarrow> Allocation \<Rightarrow> string \<Rightarrow>
    (error + AllocFileInfo option list) \<times> Request list" where
  "List env alloc path =
     (case nodes_info env (NodeID alloc) EmptyOptions of
        Inl err \<Rightarrow> (Inl err, [])
      | Inr node \<Rightarrow>
          if HTTPAddr node = '''' then (Inl (not_advertised alloc), [])
          else
            let req = fs_request ''/v1/client/fs/ls/'' node alloc
                        (Set_value ''path'' path Map.empty) False
            in (case http_do env req of
                 Inl err \<Rightarrow> (Inl err, [req])
               | Inr resp \<Rightarrow>
                   if StatusCode resp \<noteq> 200 then (Inl (getErrorMsg env resp), [req])
                   else (case decode_files env (Body resp) of
                           Inl err \<Rightarrow> (Inl err, [req])
                         | Inr files \<Rightarrow> (Inr files, [req]))))"

definition Stat :: "('b, 'q) env \<Rightarrow> Allocation \<Rightarrow> string \<Rightarrow>
    (error + AllocFileInfo option) \<times> Request list" where
  "Stat env alloc path =
     (case nodes_info env (NodeID alloc) EmptyOptions of
        Inl err \<Rightarrow> (Inl err, [])
      | Inr node \<Rightarrow>
          if HTTPAddr node = '''' then (Inl (not_advertised alloc), [])
          else
            let req = fs_request ''/v1/client/fs/stat/'' node alloc
                        (Set_value ''path'' path Map.empty) False
            in (case http_do env req of
                 Inl err \<Rightarrow> (Inl err, [req])
               | Inr resp \<Rightarrow>
                   if StatusCode resp \<noteq> 200 then (Inl (getErrorMsg env resp), [req])
                   else (case decode_file env (Body resp) of
                           Inl err \<Rightarrow> (Inl err, [req])
                         | Inr file \<Rightarrow> (Inr file, [req]))))"

definition ReadAt :: "('b, 'q) env \<Rightarrow> Allocation \<Rightarrow> string \<Rightarrow> 64 word \<Rightarrow> 64 word \<Rightarrow>
    (error + 'b) \<times> Request list" where
  "ReadAt env alloc path offset limit =
     (case nodes_info env (NodeID alloc) EmptyOptions of
        Inl err \<Rightarrow> (Inl err, [])
      | Inr node \<Rightarrow>
          if HTTPAddr node = '''' then (Inl (not_advertised alloc), [])
          else
            let req = fs_request ''/v1/client/fs/readat/'' node alloc
                        (Set_value ''limit'' (FormatInt10 limit)
                          (Set_value ''offset'' (FormatInt10 offset)
                            (Set_value ''path'' path Map.empty))) False
            in (case http_do env req of
                 Inl err \<Rightarrow> (Inl err, [req])
               | Inr resp \<Rightarrow> (Inr (Body resp), [req])))"

definition Cat :: "('b, 'q) env \<Rightarrow> Allocation \<Rightarrow> string \<Rightarrow> (error + 'b) \<times> Request list" where
  "Cat env alloc path =
     (case nodes_info env (NodeID alloc) EmptyOptions of
        Inl err \<Rightarrow> (Inl err, [])
      | Inr node \<Rightarrow>
          if HTTPAddr node = '''' then (Inl (not_advertised alloc), [])
          else
            let req = fs_request ''/v1/client/fs/cat/'' node alloc
                        (Set_value ''path'' path Map.empty) False
            in (case http_do env req of
                 Inl err \<Rightarrow> (Inl err, [req])
               | Inr resp \<Rightarrow> (Inr (Body resp), [req])))"

subsection \<open>Stream\<close>

text \<open>
  Stream returns the delivery channel and starts a goroutine that runs beside the
  caller. The goroutine, the channel \<open>frames\<close> (buffered, capacity 10), the caller's
  \<open>cancel\<close> channel and what the caller has taken from \<open>frames\<close> so far make up one
  state; the goroutine's program counter names the place in the loop it has reached:
  the \<open>select\<close> on \<open>cancel\<close>, the call of \<open>dec.Decode\<close>, the send
  \<open>frames <- &frame\<close>, or past its \<open>return\<close>.
\<close>

datatype pc = AtCheck | AtDecode | AtSend StreamFrame | Returned

record stream =
  pc :: pc
  body :: "decode_result list"
  frames :: "StreamFrame list"
  frames_closed :: bool
  cancel_closed :: bool
  body_closed :: bool
  received :: "StreamFrame list"
  eos :: bool

definition stream_start :: "decode_result list \<Rightarrow> stream" where
  "stream_start bs =
     \<lparr>pc = AtCheck, body = bs, frames = [], frames_closed = False, cancel_closed = False,
      body_closed = False, received = [], eos = False\<rparr>"

definition Stream :: "('b, 'q) env \<Rightarrow> Allocation \<Rightarrow> string \<Rightarrow> string \<Rightarrow> 64 word \<Rightarrow> 'q option \<Rightarrow>
    (error + stream) \<times> Request list" where
  "Stream env alloc path origin offset q =
     (case nodes_info env (NodeID alloc) (Caller q) of
        Inl err \<Rightarrow> (Inl err, [])
      | Inr node \<Rightarrow>
          if HTTPAddr node = '''' then (Inl (not_advertised alloc), [])
          else
            let req = fs_request ''/v1/client/fs/stream/'' node alloc
                        (Set_value ''offset'' (FormatInt10 offset)
                          (Set_value ''origin'' origin
                            (Set_value ''path'' path Map.empty))) True
            in (case http_do env req of
                  Inl err \<Rightarrow> (Inl err, [req])
                | Inr resp \<Rightarrow> (Inr (stream_start (decode_frames env (Body resp))), [req])))"

text \<open>
  One step of the goroutine. A receive from the closed \<open>cancel\<close> channel is ready, so
  the \<open>select\<close> returns; otherwise its \<open>default\<close> falls through to the decoder. The
  deferred \<open>resp.Body.Close()\<close> runs at either \<open>return\<close>. A step that cannot be taken
  (no frame has arrived, the buffer is full) leaves the state as it is.
\<close>

definition go_step :: "stream \<Rightarrow> stream" where
  "go_step s =
     (case pc s of
        AtCheck \<Rightarrow>
          if cancel_closed s then s\<lparr>pc := Returned, body_closed := True\<rparr>
          else s\<lparr>pc := AtDecode\<rparr>
      | AtDecode \<Rightarrow>
          (case body s of
             [] \<Rightarrow> s
           | Fail err # rest \<Rightarrow>
               s\<lparr>pc := Returned, body := rest, frames_closed := True, body_closed := True\<rparr>
           | Frame frame # rest \<Rightarrow>
               if IsHeartbeat frame then s\<lparr>pc := AtCheck, body := rest\<rparr>
               else s\<lparr>pc := AtSend frame, body := rest\<rparr>)
      | AtSend frame \<Rightarrow>
          if length (frames s) < 10 then s\<lparr>pc := AtCheck, frames := frames s @ [frame]\<rparr>
          else s
      | Returned \<Rightarrow> s)"

text \<open>
  The caller's receive \<open><-frames\<close>: the oldest buffered frame, or the end of the stream
  once the channel is closed and drained; it blocks on an open empty channel.
\<close>

definition caller_recv :: "stream \<Rightarrow> stream" where
  "caller_recv s =
     (case frames s of
        f # fs \<Rightarrow> s\<lparr>frames := fs, received := received s @ [f]\<rparr>
      | [] \<Rightarrow> if frames_closed s then s\<lparr>eos := True\<rparr> else s)"

text \<open>
  The goroutine and the caller interleave: a schedule is the list of who moves next.
  \<open>CloseCancel\<close> is the caller closing the \<open>cancel\<close> channel (closing it a
  second time would panic in the caller; here the channel just stays closed).
\<close>

datatype event = Go | Receive | CloseCancel

definition step :: "event \<Rightarrow> stream \<Rightarrow> stream" where
  "step e s =
     (case e of
        Go \<Rightarrow> go_step s
      | Receive \<Rightarrow> caller_recv s
      | CloseCancel \<Rightarrow> s\<lparr>cancel_closed := True\<rparr>)"

fun run :: "event list \<Rightarrow> stream \<Rightarrow> stream" where
  "run [] s = s"
| "run (e # es) s = run es (step e s)"

text \<open>The frames the decoder yields before its first failure.\<close>

fun decoded :: "decode_result list \<Rightarrow> StreamFrame list" where
  "decoded [] = []"
| "decoded (Frame f # rest) = f # decoded rest"
| "decoded (Fail err # rest) = []"

definition data_frames :: "decode_result list \<Rightarrow> StreamFrame list" where
  "data_frames bs = filter (\<lambda>f. \<not> IsHeartbeat f) (decoded bs)"

text \<open>The frame the goroutine holds at its send, and every frame handed to the channel.\<close>

fun in_hand :: "pc \<Rightarrow> StreamFrame list" where
  "in_hand (AtSend f) = [f]"
| "in_hand _ = []"

definition handed :: "stream \<Rightarrow> StreamFrame list" where
  "handed s = received s @ frames s"

section \<open>The one-shot result broadcast (handleResult)\<close>

text \<open>
  A \<open>*structs.WaitResult\<close> is a pointer: \<open>None\<close> is nil. The source channel
  \<open>waitCh\<close> holds the values sent and not yet received, and may be closed. The
  listener goroutine started by \<open>newHandleResult\<close> is at its receive, at the store
  into \<open>h.result\<close>, at \<open>close(doneCh)\<close>, or finished.
\<close>

datatype 'a lpc = LRecv | LSet "'a option" | LClose | LExit

text \<open>
  A call of \<open>Wait\<close>: not yet made, in the \<open>select\<close>, past the \<open>select\<close> through
  the \<open>doneCh\<close> case (about to read \<open>h.result\<close>), or returned, with the case taken
  and the value returned.
\<close>

datatype branch = DoneCase | CtxCase

datatype 'a waiter = NotCalled | Selecting | TookDone | Ret branch "'a option"

record 'a handle =
  waitCh :: "'a option list"
  waitCh_closed :: bool
  lpc :: "'a lpc"
  result :: "'a option"
  doneCh_closed :: bool
  waiters :: "nat \<Rightarrow> 'a waiter"
  ctx_done :: "nat \<Rightarrow> bool"

definition newHandleResult :: "'a handle" where
  "newHandleResult =
     \<lparr>waitCh = [], waitCh_closed = False, lpc = LRecv, result = None,
      doneCh_closed = False, waiters = (\<lambda>i. NotCalled), ctx_done = (\<lambda>i. False)\<rparr>"

text \<open>
  One step of the listener. A receive from a closed and drained channel yields the zero
  value, nil.
\<close>

definition listener_step :: "'a handle \<Rightarrow> 'a handle" where
  "listener_step h =
     (case lpc h of
        LRecv \<Rightarrow>
          (case waitCh h of
             res # rest \<Rightarrow> h\<lparr>waitCh := rest, lpc := LSet res\<rparr>
           | [] \<Rightarrow> if waitCh_closed h then h\<lparr>lpc := LSet None\<rparr> else h)
      | LSet res \<Rightarrow> h\<lparr>result := res, lpc := LClose\<rparr>
      | LClose \<Rightarrow> h\<lparr>doneCh_closed := True, lpc := LExit\<rparr>
      | LExit \<Rightarrow> h)"

text \<open>
  The events of a run: the producer sends on the source or closes it, the listener
  moves, caller \<open>i\<close> enters \<open>Wait\<close>, the context of caller \<open>i\<close> is cancelled, the
  \<open>select\<close> of caller \<open>i\<close> takes a ready case (when both are ready either may be
  taken), caller \<open>i\<close> reads \<open>h.result\<close> and returns. An event that is not enabled
  leaves the state as it is; so does a send on the closed source, which panics in the
  producer.
\<close>

datatype 'a hevent =
  Send "'a option" | CloseSource | Listener
  | Call nat | CancelCtx nat | SelectDone nat | SelectCtx nat | Return nat

text \<open>
  \<open>Wait\<close>, in its two steps. The \<open>select\<close> takes the \<open>doneCh\<close> case when
  \<open>doneCh\<close> is closed, or the \<open>ctx.Done()\<close> case when the context is cancelled, and
  that case returns nil at once; after the \<open>doneCh\<close> case the call returns what it
  reads from \<open>h.result\<close>.
\<close>

definition Wait_select :: "branch \<Rightarrow> nat \<Rightarrow> 'a handle \<Rightarrow> 'a handle" where
  "Wait_select b i h =
     (case b of
        DoneCase \<Rightarrow>
          if waiters h i = Selecting \<and> doneCh_closed h
          then h\<lparr>waiters := (waiters h)(i := TookDone)\<rparr> else h
      | CtxCase \<Rightarrow>
          if waiters h i = Selecting \<and> ctx_done h i
          then h\<lparr>waiters := (waiters h)(i := Ret CtxCase None)\<rparr> else h)"

definition Wait_return :: "nat \<Rightarrow> 'a handle \<Rightarrow> 'a handle" where
  "Wait_return i h =
     (if waiters h i = TookDone
      then h\<lparr>waiters := (waiters h)(i := Ret DoneCase (result h))\<rparr> else h)"

definition hstep :: "'a hevent \<Rightarrow> 'a handle \<Rightarrow> 'a handle" where
  "hstep e h =
     (case e of
        Send v \<Rightarrow> if waitCh_closed h then h else h\<lparr>waitCh := waitCh h @ [v]\<rparr>
      | CloseSource \<Rightarrow> h\<lparr>waitCh_closed := True\<rparr>
      | Listener \<Rightarrow> listener_step h
      | Call i \<Rightarrow>
          if waiters h i = NotCalled then h\<lparr>waiters := (waiters h)(i := Selecting)\<rparr> else h
      | CancelCtx i \<Rightarrow> h\<lparr>ctx_done := (ctx_done h)(i := True)\<rparr>
      | SelectDone i \<Rightarrow> Wait_select DoneCase i h
      | SelectCtx i \<Rightarrow> Wait_select CtxCase i h
      | Return i \<Rightarrow> Wait_return i h)"

fun hrun :: "'a hevent list \<Rightarrow> 'a handle \<Rightarrow> 'a handle" where
  "hrun [] h = h"
| "hrun (e # es) h = hrun es (hstep e h)"

text \<open>
  What the source yields to its first receiver in a run: the first value sent, or nil
  when the source is closed before anything is sent; \<open>None\<close> when the producer does
  neither.
\<close>

fun source_yield :: "'a hevent list \<Rightarrow> 'a option option" where
  "source_yield [] = None"
| "source_yield (Send v # es) = Some v"
| "source_yield (CloseSource # es) = Some None"
| "source_yield (e # es) = source_yield es"

text \<open>What a receive on the source would yield in a state, \<open>None\<close> when it would block.\<close>

definition pending_yield :: "'a handle \<Rightarrow> 'a option option" where
  "pending_yield h =
     (case waitCh h of
        v # rest \<Rightarrow> Some v
      | [] \<Rightarrow> if waitCh_closed h then Some None else None)"

section \<open>Example inputs\<close>

text \<open>
  An environment for examples: a registry that reports the address \<open>addr\<close> for every
  node, and an agent that answers every request with the given status and a body that
  is plain text, not JSON.
\<close>

definition plain_env :: "string \<Rightarrow> int \<Rightarrow> string \<Rightarrow> (string, unit) env" where
  "plain_env addr status content =
     \<lparr>nodes_info = (\<lambda>n q. Inr \<lparr>HTTPAddr = addr\<rparr>),
      http_do = (\<lambda>r. Inr \<lparr>StatusCode = status, Body = content\<rparr>),
      read_all = Inr,
      decode_files = (\<lambda>b. Inl (External ''invalid character'')),
      decode_file = (\<lambda>b. Inl (External ''invalid character'')),
      decode_frames = (\<lambda>b. [Fail (External ''invalid character'')])\<rparr>"

text \<open>
  The frames of the scenario "one heartbeat, then one data frame, then the server
  closes": a heartbeat is what the empty JSON object decodes to.
\<close>

definition an_alloc :: Allocation where
  "an_alloc = \<lparr>ID = ''8ba85cef'', NodeID = ''f7476465''\<rparr>"

definition heartbeat :: StreamFrame where
  "heartbeat = \<lparr>Offset = 0, Data = [], File = [], FileEvent = []\<rparr>"

definition hi_frame :: StreamFrame where
  "hi_frame = \<lparr>Offset = 120, Data = ''aGk='', File = ''stdout.log'', FileEvent = []\<rparr>"

definition tail_body :: "decode_result list" where
  "tail_body = [Frame heartbeat, Frame hi_frame, Fail (External ''EOF'')]"

definition tail_schedule :: "event list" where
  "tail_schedule = [Go, Go, Go, Go, Go, Go, Go, Receive, Receive]"

text \<open>
  Runs of the broadcast. In \<open>exit_schedule\<close> a process exits with code 2: callers 0
  and 1 wait before the result is sent and caller 2 after it, and caller 3 has given up
  before. \<open>both_ready_schedule\<close> leaves caller 3 in its \<open>select\<close> with both cases
  ready, \<open>gave_up_schedule\<close> with its context cancelled before any delivery. In
  \<open>closed_schedule\<close> the source is closed without a value. In
  \<open>abandoned_schedule\<close> the producer never sends and never closes.
\<close>

definition exit_schedule :: "int hevent list" where
  "exit_schedule =
     [Call 0, Call 1, Call 3, CancelCtx 3, SelectCtx 3, Send (Some 2),
      Listener, Listener, Listener, SelectDone 0, Return 0, SelectDone 1, Return 1,
      Call 2, SelectDone 2, Return 2]"

definition both_ready_schedule :: "int hevent list" where
  "both_ready_schedule =
     [Call 3, CancelCtx 3, Send (Some 2), Listener, Listener, Listener]"

definition gave_up_schedule :: "int hevent list" where
  "gave_up_schedule = [Call 3, CancelCtx 3]"

definition closed_schedule :: "int hevent list" where
  "closed_schedule =
     [Call 1, CancelCtx 1, SelectCtx 1, CloseSource, Listener, Listener, Listener,
      Call 0, SelectDone 0, Return 0]"

definition abandoned_schedule :: "int hevent list" where
  "abandoned_schedule =
     [Call 0, Listener, SelectDone 0, SelectCtx 0, Return 0, Call 1, CancelCtx 1, SelectCtx 1,
      Listener, SelectDone 0, Return 0]"

section \<open>Invariants\<close>

text \<open>
  The invariant of a stream whose body decodes to the data frames \<open>T\<close>: while the
  goroutine runs, what the caller has received, the buffer, the frame at the send and
  the data frames still to be decoded make up \<open>T\<close>; the channel is closed only after
  all of \<open>T\<close> was handed over; a goroutine that returned without closing had seen the
  cancellation.
\<close>

definition stream_inv :: "StreamFrame list \<Rightarrow> stream \<Rightarrow> bool" where
  "stream_inv T s \<longleftrightarrow>
     (pc s \<noteq> Returned \<longrightarrow>
        received s @ frames s @ in_hand (pc s) @ data_frames (body s) = T \<and> \<not> frames_closed s)
   \<and> prefix (received s @ frames s) T
   \<and> (frames_closed s \<longrightarrow> received s @ frames s = T)
   \<and> (eos s \<longrightarrow> received s = T)
   \<and> (pc s = Returned \<and> \<not> frames_closed s \<longrightarrow> cancel_closed s)"

text \<open>
  How many sends and how many calls of the decoder the goroutine can still make once
  \<open>cancel\<close> is closed, by the place it is at; and the relation between a state \<open>s\<close>
  with \<open>cancel\<close> closed and a later state \<open>t\<close>.
\<close>

fun sends_left :: "pc \<Rightarrow> nat" where
  "sends_left AtCheck = 0"
| "sends_left AtDecode = 1"
| "sends_left (AtSend f) = 1"
| "sends_left Returned = 0"

fun decodes_left :: "pc \<Rightarrow> nat" where
  "decodes_left AtDecode = 1"
| "decodes_left _ = 0"

definition after_cancel :: "stream \<Rightarrow> stream \<Rightarrow> bool" where
  "after_cancel s t \<longleftrightarrow>
     cancel_closed t
   \<and> prefix (handed s) (handed t)
   \<and> suffix (body t) (body s)
   \<and> length (handed t) + sends_left (pc t) \<le> length (handed s) + sends_left (pc s)
   \<and> length (body s) + decodes_left (pc t) \<le> length (body t) + decodes_left (pc s)"

text \<open>
  The invariant of the broadcast, for \<open>y\<close> what the source has yielded so far: the
  listener holds or has stored exactly that value, \<open>doneCh\<close> is closed only after the
  store, a caller past the \<open>doneCh\<close> case has seen it closed and returns the stored
  value, and a caller that left through its context returns nil.
\<close>

definition handle_inv :: "'a option option \<Rightarrow> 'a handle \<Rightarrow> bool" where
  "handle_inv y h \<longleftrightarrow>
     (case lpc h of
        LRecv \<Rightarrow> pending_yield h = y \<and> \<not> doneCh_closed h
      | LSet res \<Rightarrow> y = Some res \<and> \<not> doneCh_closed h
      | LClose \<Rightarrow> y = Some (result h) \<and> \<not> doneCh_closed h
      | LExit \<Rightarrow> y = Some (result h) \<and> doneCh_closed h)
   \<and> (\<forall>i. waiters h i = TookDone \<longrightarrow> doneCh_closed h)
   \<and> (\<forall>i v. waiters h i = Ret DoneCase v \<longrightarrow> doneCh_closed h \<and> v = result h)
   \<and> (\<forall>i v. waiters h i = Ret CtxCase v \<longrightarrow> v = None \<and> ctx_done h i)"

definition next_yield :: "'a option option \<Rightarrow> 'a hevent \<Rightarrow> 'a option option" where
  "next_yield y e = (case y of Some v \<Rightarrow> Some v | None \<Rightarrow> source_yield [e])"

section \<open>Properties of the dispatcher operations\<close>

text \<open>
  C2. When the node that hosts the allocation advertises no HTTP address, List, Stat,
  ReadAt, Cat and Stream each return the error that names the allocation's ID and says
  that the address is not advertised, and none of them has issued a request through the
  HTTP client. (List, Stat, ReadAt and Cat look the node up with empty query options,
  Stream with the caller's.)
\<close>

theorem not_advertised_before_request:
  assumes "nodes_info env (NodeID alloc) EmptyOptions = Inr node"
    and "HTTPAddr node = ''''"
    and "nodes_info env (NodeID alloc) (Caller q) = Inr node'"
    and "HTTPAddr node' = ''''"
  shows "List env alloc path =
           (Inl (Errorf ''http addr of the node where alloc %q is running is not advertised''
                   [ID alloc]), [])
       \<and> Stat env alloc path =
           (Inl (Errorf ''http addr of the node where alloc %q is running is not advertised''
                   [ID alloc]), [])
       \<and> ReadAt env alloc path offset limit =
           (Inl (Errorf ''http addr of the node where alloc %q is running is not advertised''
                   [ID alloc]), [])
       \<and> Cat env alloc path =
           (Inl (Errorf ''http addr of the node where alloc %q is running is not advertised''
                   [ID alloc]), [])
       \<and> Stream env alloc path origin offset q =
           (Inl (Errorf ''http addr of the node where alloc %q is running is not advertised''
                   [ID alloc]), [])"
  using assms
  by (simp add: List_def Stat_def ReadAt_def Cat_def Stream_def not_advertised_def)

theorem not_advertised_before_request_witness:
  "nodes_info (plain_env [] 200 ''[]'') (NodeID an_alloc) EmptyOptions = Inr \<lparr>HTTPAddr = []\<rparr>
   \<and> nodes_info (plain_env [] 200 ''[]'') (NodeID an_alloc) (Caller None) = Inr \<lparr>HTTPAddr = []\<rparr>
   \<and> List (plain_env [] 200 ''[]'') an_alloc ''/'' =
       (Inl (Errorf ''http addr of the node where alloc %q is running is not advertised''
               [''8ba85cef'']), [])
   \<and> Stream (plain_env [] 200 ''[]'') an_alloc ''/'' ''start'' 0 None =
       (Inl (Errorf ''http addr of the node where alloc %q is running is not advertised''
               [''8ba85cef'']), [])"
  using not_advertised_before_request
          [where env = "plain_env [] 200 ''[]''" and alloc = an_alloc
             and node = "\<lparr>HTTPAddr = []\<rparr>" and q = None and node' = "\<lparr>HTTPAddr = []\<rparr>"
             and path = "''/''" and offset = 0 and limit = 0 and origin = "''start''"]
  by (simp add: plain_env_def an_alloc_def)

text \<open>
  C4 (the code departs from the claim). The agent answers with status 500 and the text
  of its error. List and Stat turn the body into the error they return; ReadAt and Cat
  do not look at the status and return the same body as the file's content, with no
  error.
\<close>

theorem ReadAt_Cat_skip_status_check:
  "fst (ReadAt (plain_env ''10.0.0.7:4646'' 500 ''no such file'') an_alloc ''/x'' 0 10)
     = Inr ''no such file''
   \<and> fst (Cat (plain_env ''10.0.0.7:4646'' 500 ''no such file'') an_alloc ''/x'')
     = Inr ''no such file''
   \<and> fst (List (plain_env ''10.0.0.7:4646'' 500 ''no such file'') an_alloc ''/x'')
     = Inl (Errorf ''no such file'' [])
   \<and> fst (Stat (plain_env ''10.0.0.7:4646'' 500 ''no such file'') an_alloc ''/x'')
     = Inl (Errorf ''no such file'' [])"
  by (simp add: ReadAt_def Cat_def List_def Stat_def getErrorMsg_def plain_env_def)

section \<open>Properties of Stream\<close>

lemma data_frames_simps [simp]:
  "data_frames [] = []"
  "data_frames (Fail err # rest) = []"
  "data_frames (Frame f # rest) = (if IsHeartbeat f then data_frames rest else f # data_frames rest)"
  by (simp_all add: data_frames_def)

lemma data_frames_no_heartbeat: "f \<in> set (data_frames bs) \<Longrightarrow> \<not> IsHeartbeat f"
  by (simp add: data_frames_def)

lemma stream_inv_start: "stream_inv (data_frames bs) (stream_start bs)"
  by (simp add: stream_inv_def stream_start_def)

lemma stream_inv_go: "stream_inv T s \<Longrightarrow> stream_inv T (go_step s)"
  unfolding stream_inv_def go_step_def
  by (cases "pc s"; cases "body s"; auto split: decode_result.splits)

lemma stream_inv_recv: "stream_inv T s \<Longrightarrow> stream_inv T (caller_recv s)"
  unfolding stream_inv_def caller_recv_def
  by (cases "frames s"; cases "pc s"; auto)

lemma stream_inv_step: "stream_inv T s \<Longrightarrow> stream_inv T (step e s)"
  by (cases e) (simp_all add: step_def stream_inv_go stream_inv_recv, simp add: stream_inv_def)

lemma stream_inv_run: "stream_inv T s \<Longrightarrow> stream_inv T (run es s)"
  by (induction es arbitrary: s) (simp_all add: stream_inv_step)

lemma quiescent_received:
  assumes "stream_inv T s" "\<not> cancel_closed s" "go_step s = s" "caller_recv s = s"
  shows "received s = T"
proof -
  have fr: "frames s = []"
  proof (cases "frames s")
    case (Cons f fs)
    then have "received (caller_recv s) = received s @ [f]" by (simp add: caller_recv_def)
    with assms(4) show ?thesis by simp
  qed simp
  show ?thesis
  proof (cases "pc s")
    case AtCheck
    with assms(2) have "pc (go_step s) = AtDecode" by (simp add: go_step_def)
    with assms(3) AtCheck show ?thesis by simp
  next
    case AtDecode
    show ?thesis
    proof (cases "body s")
      case Nil
      with assms(1) AtDecode fr show ?thesis by (simp add: stream_inv_def)
    next
      case (Cons b rest)
      with AtDecode have "pc (go_step s) \<noteq> AtDecode"
        by (cases b) (simp_all add: go_step_def)
      with assms(3) AtDecode show ?thesis by simp
    qed
  next
    case (AtSend f)
    with fr have "pc (go_step s) = AtCheck" by (simp add: go_step_def)
    with assms(3) AtSend show ?thesis by simp
  next
    case Returned
    with assms(1,2) fr show ?thesis by (auto simp: stream_inv_def)
  qed
qed

text \<open>
  C3. Whatever the body and however the goroutine and the caller interleave, what the
  caller has received is a prefix of the body's non-heartbeat frames in their order, so
  no heartbeat is ever received; and it is all of them once the caller has seen the end
  of the stream, or once (without cancellation) neither the goroutine nor the caller can
  move any more.
\<close>

theorem Stream_delivers_data_frames:
  "prefix (received (run es (stream_start bs))) (data_frames bs)
   \<and> (\<forall>f \<in> set (received (run es (stream_start bs))). \<not> IsHeartbeat f)
   \<and> (eos (run es (stream_start bs)) \<longrightarrow> received (run es (stream_start bs)) = data_frames bs)
   \<and> (\<not> cancel_closed (run es (stream_start bs))
        \<and> go_step (run es (stream_start bs)) = run es (stream_start bs)
        \<and> caller_recv (run es (stream_start bs)) = run es (stream_start bs)
      \<longrightarrow> received (run es (stream_start bs)) = data_frames bs)"
proof -
  let ?s = "run es (stream_start bs)"
  have inv: "stream_inv (data_frames bs) ?s"
    by (rule stream_inv_run) (rule stream_inv_start)
  then have p: "prefix (received ?s) (data_frames bs)"
    by (auto simp: stream_inv_def dest: append_prefixD)
  then have "set (received ?s) \<subseteq> set (data_frames bs)"
    by (rule set_mono_prefix)
  then have nh: "\<forall>f \<in> set (received ?s). \<not> IsHeartbeat f"
    using data_frames_no_heartbeat by blast
  from inv have e: "eos ?s \<longrightarrow> received ?s = data_frames bs"
    by (simp add: stream_inv_def)
  from inv have q: "\<not> cancel_closed ?s \<and> go_step ?s = ?s \<and> caller_recv ?s = ?s
      \<longrightarrow> received ?s = data_frames bs"
    using quiescent_received by blast
  from p nh e q show ?thesis by blast
qed

lemma tail_run:
  "run tail_schedule (stream_start tail_body) =
     \<lparr>pc = Returned, body = [], frames = [], frames_closed = True, cancel_closed = False,
      body_closed = True, received = [hi_frame], eos = True\<rparr>"
  by (simp add: tail_schedule_def tail_body_def stream_start_def step_def go_step_def
      caller_recv_def IsHeartbeat_def heartbeat_def hi_frame_def)

theorem Stream_delivers_data_frames_witness:
  "\<not> cancel_closed (run tail_schedule (stream_start tail_body))
   \<and> go_step (run tail_schedule (stream_start tail_body)) = run tail_schedule (stream_start tail_body)
   \<and> caller_recv (run tail_schedule (stream_start tail_body)) = run tail_schedule (stream_start tail_body)
   \<and> eos (run tail_schedule (stream_start tail_body))
   \<and> received (run tail_schedule (stream_start tail_body)) = [hi_frame]
   \<and> data_frames tail_body = [hi_frame]
   \<and> \<not> IsHeartbeat hi_frame"
  using Stream_delivers_data_frames [of tail_schedule tail_body]
  by (simp add: tail_run go_step_def caller_recv_def)

lemma cancelled_return_step:
  "pc s = Returned \<and> \<not> frames_closed s \<and> \<not> eos s \<Longrightarrow>
   pc (step e s) = Returned \<and> \<not> frames_closed (step e s) \<and> \<not> eos (step e s)"
  by (cases e; cases "frames s") (simp_all add: step_def go_step_def caller_recv_def)

lemma cancelled_return_run:
  "pc s = Returned \<and> \<not> frames_closed s \<and> \<not> eos s \<Longrightarrow>
   pc (run es s) = Returned \<and> \<not> frames_closed (run es s) \<and> \<not> eos (run es s)"
proof (induction es arbitrary: s)
  case Nil
  then show ?case by simp
next
  case (Cons e es)
  from Cons.prems have "pc (step e s) = Returned \<and> \<not> frames_closed (step e s) \<and> \<not> eos (step e s)"
    by (rule cancelled_return_step)
  then show ?case using Cons.IH by simp
qed

text \<open>
  C5 (the code departs from the claim). When the goroutine finds \<open>cancel\<close> closed at
  its check it returns, and the deferred call closes the response body, but nothing
  closes \<open>frames\<close>: whatever happens afterwards, the channel stays open and the caller
  never sees the end of the stream.
\<close>

theorem cancelled_Stream_never_closes_frames:
  "pc (run es (run [CloseCancel, Go] (stream_start bs))) = Returned
   \<and> body_closed (run [CloseCancel, Go] (stream_start bs))
   \<and> \<not> frames_closed (run es (run [CloseCancel, Go] (stream_start bs)))
   \<and> \<not> eos (run es (run [CloseCancel, Go] (stream_start bs)))"
proof -
  have "pc (run [CloseCancel, Go] (stream_start bs)) = Returned
      \<and> \<not> frames_closed (run [CloseCancel, Go] (stream_start bs))
      \<and> \<not> eos (run [CloseCancel, Go] (stream_start bs))"
    by (simp add: stream_start_def step_def go_step_def)
  from cancelled_return_run [OF this]
  show ?thesis by (simp add: stream_start_def step_def go_step_def)
qed

lemma drain_closed:
  "frames_closed s \<Longrightarrow> length (frames s) = n \<Longrightarrow>
   eos (run (replicate (Suc n) Receive) s)
   \<and> received (run (replicate (Suc n) Receive) s) = received s @ frames s"
proof (induction n arbitrary: s)
  case 0
  then show ?case by (simp add: step_def caller_recv_def)
next
  case (Suc n)
  then obtain f fs where fr: "frames s = f # fs" by (cases "frames s") auto
  let ?s = "step Receive s"
  from fr have s': "frames ?s = fs" "received ?s = received s @ [f]" "frames_closed ?s = frames_closed s"
    by (simp_all add: step_def caller_recv_def)
  with Suc.prems fr have "frames_closed ?s" "length (frames ?s) = n" by simp_all
  from Suc.IH [OF this] s' fr show ?case by simp
qed

text \<open>
  C6. A failure of the decoder makes the goroutine close \<open>frames\<close> and the body and
  return; the failure itself is dropped, and the caller, after taking the frames still
  buffered, sees the end of the stream. In List and Stat the decoder's failure on a
  response with status 200 is the error that is returned.
\<close>

theorem decode_failure_ends_stream:
  "(pc s = AtDecode \<and> body s = Fail ferr # rest \<longrightarrow>
      go_step s = s\<lparr>pc := Returned, body := rest, frames_closed := True, body_closed := True\<rparr>
      \<and> eos (run (replicate (Suc (length (frames s))) Receive) (go_step s))
      \<and> received (run (replicate (Suc (length (frames s))) Receive) (go_step s)) = handed s)
   \<and> (nodes_info env (NodeID alloc) EmptyOptions = Inr node \<and> HTTPAddr node \<noteq> ''''
        \<and> http_do env (fs_request ''/v1/client/fs/ls/'' node alloc
                        (Set_value ''path'' path Map.empty) False) = Inr resp
        \<and> StatusCode resp = 200 \<and> decode_files env (Body resp) = Inl err \<longrightarrow>
      fst (List env alloc path) = Inl err)
   \<and> (nodes_info env (NodeID alloc) EmptyOptions = Inr node \<and> HTTPAddr node \<noteq> ''''
        \<and> http_do env (fs_request ''/v1/client/fs/stat/'' node alloc
                        (Set_value ''path'' path Map.empty) False) = Inr resp
        \<and> StatusCode resp = 200 \<and> decode_file env (Body resp) = Inl err \<longrightarrow>
      fst (Stat env alloc path) = Inl err)"
proof -
  have a: "go_step s = s\<lparr>pc := Returned, body := rest, frames_closed := True, body_closed := True\<rparr>
      \<and> eos (run (replicate (Suc (length (frames s))) Receive) (go_step s))
      \<and> received (run (replicate (Suc (length (frames s))) Receive) (go_step s)) = handed s"
    if h: "pc s = AtDecode \<and> body s = Fail ferr # rest"
  proof -
    from h have g: "go_step s =
        s\<lparr>pc := Returned, body := rest, frames_closed := True, body_closed := True\<rparr>"
      by (simp add: go_step_def)
    then have "frames_closed (go_step s)" "length (frames (go_step s)) = length (frames s)"
      by simp_all
    from drain_closed [OF this] g show ?thesis by (simp add: handed_def)
  qed
  have c: "nodes_info env (NodeID alloc) EmptyOptions = Inr node \<and> HTTPAddr node \<noteq> ''''
        \<and> http_do env (fs_request ''/v1/client/fs/ls/'' node alloc
                        (Set_value ''path'' path Map.empty) False) = Inr resp
        \<and> StatusCode resp = 200 \<and> decode_files env (Body resp) = Inl err \<longrightarrow>
      fst (List env alloc path) = Inl err"
    by (simp add: List_def)
  have d: "nodes_info env (NodeID alloc) EmptyOptions = Inr node \<and> HTTPAddr node \<noteq> ''''
        \<and> http_do env (fs_request ''/v1/client/fs/stat/'' node alloc
                        (Set_value ''path'' path Map.empty) False) = Inr resp
        \<and> StatusCode resp = 200 \<and> decode_file env (Body resp) = Inl err \<longrightarrow>
      fst (Stat env alloc path) = Inl err"
    by (simp add: Stat_def)
  from a c d show ?thesis by blast
qed

theorem decode_failure_ends_stream_witness:
  "pc (run [Go] (stream_start [Fail (External ''EOF'')])) = AtDecode
   \<and> body (run [Go] (stream_start [Fail (External ''EOF'')])) = [Fail (External ''EOF'')]
   \<and> frames_closed (go_step (run [Go] (stream_start [Fail (External ''EOF'')])))
   \<and> eos (run [Receive] (go_step (run [Go] (stream_start [Fail (External ''EOF'')]))))
   \<and> nodes_info (plain_env ''10.0.0.7:4646'' 200 ''not json'') (NodeID an_alloc) EmptyOptions
       = Inr \<lparr>HTTPAddr = ''10.0.0.7:4646''\<rparr>
   \<and> decode_files (plain_env ''10.0.0.7:4646'' 200 ''not json'') ''not json''
       = Inl (External ''invalid character'')
   \<and> fst (List (plain_env ''10.0.0.7:4646'' 200 ''not json'') an_alloc ''/'')
       = Inl (External ''invalid character'')
   \<and> fst (Stat (plain_env ''10.0.0.7:4646'' 200 ''not json'') an_alloc ''/'')
       = Inl (External ''invalid character'')"
  using decode_failure_ends_stream
          [where s = "run [Go] (stream_start [Fail (External ''EOF'')])"
             and ferr = "External ''EOF''" and rest = "[]"
             and env = "plain_env ''10.0.0.7:4646'' 200 ''not json''" and alloc = an_alloc
             and node = "\<lparr>HTTPAddr = ''10.0.0.7:4646''\<rparr>" and path = "''/''"
             and resp = "\<lparr>StatusCode = 200, Body = ''not json''\<rparr>"
             and err = "External ''invalid character''"]
  by (simp add: plain_env_def stream_start_def step_def go_step_def)

text \<open>
  C7 as stated fails: \<open>cancel\<close> is closed after the goroutine has passed its check,
  and the frame it then decodes is sent and received.
\<close>

theorem frame_delivered_after_cancel:
  "cancel_closed (run [Go, CloseCancel] (stream_start [Frame hi_frame]))
   \<and> handed (run [Go, CloseCancel] (stream_start [Frame hi_frame])) = []
   \<and> handed (run [Go, Go] (run [Go, CloseCancel] (stream_start [Frame hi_frame]))) = [hi_frame]
   \<and> received (run [Go, Go, Receive] (run [Go, CloseCancel] (stream_start [Frame hi_frame]))) = [hi_frame]"
  by (simp add: stream_start_def step_def go_step_def caller_recv_def handed_def
      IsHeartbeat_def hi_frame_def)

lemma after_cancel_refl: "cancel_closed s \<Longrightarrow> after_cancel s s"
  by (simp add: after_cancel_def)

lemma prefix_append_snoc: "prefix xs (ys @ zs) \<Longrightarrow> prefix xs (ys @ zs @ [z])"
  using prefix_prefix [of xs "ys @ zs" "[z]"] by simp

lemma after_cancel_go:
  assumes "after_cancel s t"
  shows "after_cancel s (go_step t)"
proof (cases "pc t")
  case AtCheck
  with assms have "go_step t = t\<lparr>pc := Returned, body_closed := True\<rparr>"
    by (simp add: go_step_def after_cancel_def)
  with assms AtCheck show ?thesis
    by (simp add: after_cancel_def handed_def)
next
  case AtDecode
  show ?thesis
  proof (cases "body t")
    case Nil
    with AtDecode have "go_step t = t" by (simp add: go_step_def)
    with assms show ?thesis by simp
  next
    case (Cons b rest)
    from assms Cons have suf: "suffix rest (body s)"
      by (auto simp: after_cancel_def dest: suffix_ConsD)
    from assms Cons AtDecode
    have len: "length (body s) \<le> length rest + decodes_left (pc s)"
      by (simp add: after_cancel_def)
    from AtDecode Cons
    have go: "body (go_step t) = rest" "handed (go_step t) = handed t"
      "cancel_closed (go_step t) = cancel_closed t" "sends_left (pc (go_step t)) \<le> 1"
      "decodes_left (pc (go_step t)) = 0"
      by (cases b; simp add: go_step_def handed_def)+
    from assms AtDecode have "length (handed t) + 1 \<le> length (handed s) + sends_left (pc s)"
      by (simp add: after_cancel_def)
    with go(4) have "length (handed t) + sends_left (pc (go_step t))
        \<le> length (handed s) + sends_left (pc s)"
      by linarith
    with assms suf len go show ?thesis
      by (simp add: after_cancel_def)
  qed
next
  case (AtSend f)
  show ?thesis
  proof (cases "length (frames t) < 10")
    case True
    with AtSend have go: "go_step t = t\<lparr>pc := AtCheck, frames := frames t @ [f]\<rparr>"
      by (simp add: go_step_def)
    from assms have "prefix (handed s) (received t @ frames t @ [f])"
      by (simp add: after_cancel_def handed_def prefix_append_snoc)
    with assms AtSend show ?thesis
      unfolding go by (simp add: after_cancel_def handed_def)
  next
    case False
    with AtSend have "go_step t = t" by (simp add: go_step_def)
    with assms show ?thesis by simp
  qed
next
  case Returned
  then have "go_step t = t" by (simp add: go_step_def)
  with assms show ?thesis by simp
qed

lemma after_cancel_recv: "after_cancel s t \<Longrightarrow> after_cancel s (caller_recv t)"
  unfolding after_cancel_def caller_recv_def handed_def
  by (cases "frames t") auto

lemma after_cancel_step: "after_cancel s t \<Longrightarrow> after_cancel s (step e t)"
  by (cases e) (simp_all add: step_def after_cancel_go after_cancel_recv, simp add: after_cancel_def handed_def)

lemma after_cancel_run: "after_cancel s t \<Longrightarrow> after_cancel s (run es t)"
  by (induction es arbitrary: t) (simp_all add: after_cancel_step)

lemma prefix_same_length: "prefix xs ys \<Longrightarrow> length ys \<le> length xs \<Longrightarrow> ys = xs"
  by (auto simp: prefix_def)

lemma suffix_same_length: "suffix xs ys \<Longrightarrow> length ys \<le> length xs \<Longrightarrow> xs = ys"
  by (auto simp: suffix_def)

text \<open>
  C7, amended. Once \<open>cancel\<close> is closed the goroutine returns at its next check: in
  whatever follows, the frames handed to the channel grow by at most one frame and the
  decoder is called at most once more; when the goroutine is at its check (or has
  returned), no further frame is decoded or handed over.
\<close>

theorem cancel_stops_within_one_iteration:
  assumes "cancel_closed s"
  shows "prefix (handed s) (handed (run es s))
       \<and> length (handed (run es s)) \<le> Suc (length (handed s))
       \<and> length (body s) \<le> Suc (length (body (run es s)))
       \<and> (pc s = AtCheck \<or> pc s = Returned \<longrightarrow>
            handed (run es s) = handed s \<and> body (run es s) = body s)
       \<and> (pc s = AtCheck \<longrightarrow> pc (go_step s) = Returned \<and> body_closed (go_step s))"
proof -
  from assms have ac: "after_cancel s (run es s)"
    by (intro after_cancel_run after_cancel_refl)
  then have p: "prefix (handed s) (handed (run es s))"
    by (simp add: after_cancel_def)
  from ac have h: "length (handed (run es s)) \<le> Suc (length (handed s))"
    by (cases "pc s") (simp_all add: after_cancel_def)
  from ac have b: "length (body s) \<le> Suc (length (body (run es s)))"
    by (cases "pc s") (simp_all add: after_cancel_def)
  have q: "handed (run es s) = handed s \<and> body (run es s) = body s"
    if "pc s = AtCheck \<or> pc s = Returned"
  proof -
    from that ac have "length (handed (run es s)) \<le> length (handed s)"
        and "length (body s) \<le> length (body (run es s))"
        and "suffix (body (run es s)) (body s)"
      by (auto simp: after_cancel_def)
    with p show ?thesis
      by (simp add: prefix_same_length suffix_same_length)
  qed
  from assms have g: "pc s = AtCheck \<longrightarrow> pc (go_step s) = Returned \<and> body_closed (go_step s)"
    by (simp add: go_step_def)
  from p h b q g show ?thesis by blast
qed

theorem cancel_stops_within_one_iteration_witness:
  "cancel_closed (run [Go, CloseCancel] (stream_start [Frame hi_frame]))
   \<and> pc (run [Go, CloseCancel] (stream_start [Frame hi_frame])) = AtDecode
   \<and> handed (run [Go, CloseCancel] (stream_start [Frame hi_frame])) = []
   \<and> handed (run [Go, Go, Go, Go, Receive] (run [Go, CloseCancel] (stream_start [Frame hi_frame])))
       = [hi_frame]
   \<and> cancel_closed (run [CloseCancel] (stream_start [Frame hi_frame]))
   \<and> pc (run [CloseCancel] (stream_start [Frame hi_frame])) = AtCheck
   \<and> handed (run [Go, Go, Go, Go, Receive] (run [CloseCancel] (stream_start [Frame hi_frame])))
       = []
   \<and> body (run [Go, Go, Go, Go, Receive] (run [CloseCancel] (stream_start [Frame hi_frame])))
       = [Frame hi_frame]
   \<and> pc (go_step (run [CloseCancel] (stream_start [Frame hi_frame]))) = Returned"
  using cancel_stops_within_one_iteration
          [where s = "run [Go, CloseCancel] (stream_start [Frame hi_frame])"
             and es = "[Go, Go, Go, Go, Receive]"]
        cancel_stops_within_one_iteration
          [where s = "run [CloseCancel] (stream_start [Frame hi_frame])"
             and es = "[Go, Go, Go, Go, Receive]"]
  by (simp add: stream_start_def step_def go_step_def caller_recv_def handed_def
      IsHeartbeat_def hi_frame_def)

text \<open>
  C9. Stream does not look at the status of the response: whenever the request is
  answered, it returns the channel and no error, and the result is the same whatever
  status the responses carry. When the body (an error text, say) fails to decode as a
  frame, the caller receives no frame and sees the end of the stream.
\<close>

theorem Stream_ignores_status:
  assumes "nodes_info env (NodeID alloc) (Caller q) = Inr node"
    and "HTTPAddr node \<noteq> ''''"
    and "http_do env (fs_request ''/v1/client/fs/stream/'' node alloc
           (Set_value ''offset'' (FormatInt10 offset)
             (Set_value ''origin'' origin (Set_value ''path'' path Map.empty))) True) = Inr resp"
  shows "fst (Stream env alloc path origin offset q)
           = Inr (stream_start (decode_frames env (Body resp)))
       \<and> fst (Stream (env\<lparr>http_do := (\<lambda>r. map_sum id (\<lambda>x. x\<lparr>StatusCode := c\<rparr>) (http_do env r))\<rparr>)
                alloc path origin offset q)
           = fst (Stream env alloc path origin offset q)
       \<and> (decode_frames env (Body resp) = Fail err # rest \<longrightarrow>
            received (run es (stream_start (decode_frames env (Body resp)))) = []
            \<and> frames_closed (run [Go, Go] (stream_start (decode_frames env (Body resp))))
            \<and> eos (run [Go, Go, Receive] (stream_start (decode_frames env (Body resp)))))"
proof -
  from assms have a: "fst (Stream env alloc path origin offset q)
      = Inr (stream_start (decode_frames env (Body resp)))"
    by (simp add: Stream_def)
  from assms have b: "fst (Stream (env\<lparr>http_do := (\<lambda>r. map_sum id (\<lambda>x. x\<lparr>StatusCode := c\<rparr>) (http_do env r))\<rparr>)
                alloc path origin offset q)
           = fst (Stream env alloc path origin offset q)"
    by (simp add: Stream_def)
  have c: "received (run es (stream_start (decode_frames env (Body resp)))) = []
      \<and> frames_closed (run [Go, Go] (stream_start (decode_frames env (Body resp))))
      \<and> eos (run [Go, Go, Receive] (stream_start (decode_frames env (Body resp))))"
    if h: "decode_frames env (Body resp) = Fail err # rest"
  proof -
    have "stream_inv (data_frames (Fail err # rest)) (run es (stream_start (Fail err # rest)))"
      by (rule stream_inv_run) (rule stream_inv_start)
    then have "received (run es (stream_start (Fail err # rest))) = []"
      by (simp add: stream_inv_def)
    with h show ?thesis
      by (simp add: stream_start_def step_def go_step_def caller_recv_def)
  qed
  from a b c show ?thesis by blast
qed

theorem Stream_ignores_status_witness:
  "nodes_info (plain_env ''10.0.0.7:4646'' 500 ''no such file'') (NodeID an_alloc) (Caller None)
     = Inr \<lparr>HTTPAddr = ''10.0.0.7:4646''\<rparr>
   \<and> fst (Stream (plain_env ''10.0.0.7:4646'' 500 ''no such file'') an_alloc
            ''stdout.log'' ''end'' 0 None)
       = Inr (stream_start [Fail (External ''invalid character'')])
   \<and> received (run [Go, Go, Receive] (stream_start [Fail (External ''invalid character'')])) = []
   \<and> eos (run [Go, Go, Receive] (stream_start [Fail (External ''invalid character'')]))"
  using Stream_ignores_status
          [where env = "plain_env ''10.0.0.7:4646'' 500 ''no such file''" and alloc = an_alloc
             and q = None and node = "\<lparr>HTTPAddr = ''10.0.0.7:4646''\<rparr>" and offset = 0
             and origin = "''end''" and path = "''stdout.log''"
             and resp = "\<lparr>StatusCode = 500, Body = ''no such file''\<rparr>"
             and err = "External ''invalid character''" and rest = "[]"
             and es = "[Go, Go, Receive]"]
  by (simp add: plain_env_def)

section \<open>Properties of the one-shot result broadcast\<close>

lemma hrun_snoc: "hrun (es @ [e]) h = hstep e (hrun es h)"
  by (induction es arbitrary: h) simp_all

lemma source_yield_snoc: "source_yield (es @ [e]) = next_yield (source_yield es) e"
  by (induction es rule: source_yield.induct) (simp_all add: next_yield_def)

lemma handle_inv_new: "handle_inv None newHandleResult"
  by (simp add: handle_inv_def newHandleResult_def pending_yield_def)

lemma handle_inv_listener:
  assumes "handle_inv y h"
  shows "handle_inv y (listener_step h)"
proof (cases "lpc h")
  case LRecv
  with assms show ?thesis
    by (cases "waitCh h")
       (auto simp: handle_inv_def listener_step_def pending_yield_def)
next
  case (LSet res)
  with assms show ?thesis
    by (auto simp: handle_inv_def listener_step_def)
next
  case LClose
  with assms show ?thesis
    by (auto simp: handle_inv_def listener_step_def)
next
  case LExit
  with assms show ?thesis
    by (simp add: listener_step_def)
qed

lemma handle_inv_step:
  assumes "handle_inv y h"
  shows "handle_inv (next_yield y e) (hstep e h)"
proof (cases e)
  case (Send v)
  with assms show ?thesis
    by (cases "lpc h"; cases "waitCh h"; cases y)
       (auto simp: handle_inv_def hstep_def Wait_select_def Wait_return_def next_yield_def pending_yield_def)
next
  case CloseSource
  with assms show ?thesis
    by (cases "lpc h"; cases "waitCh h"; cases y)
       (auto simp: handle_inv_def hstep_def Wait_select_def Wait_return_def next_yield_def pending_yield_def split: if_splits)
next
  case Listener
  have "next_yield y Listener = y" by (cases y) (simp_all add: next_yield_def)
  with assms Listener show ?thesis by (simp add: hstep_def Wait_select_def Wait_return_def handle_inv_listener)
next
  case (Call i)
  have "next_yield y (Call i) = y" by (cases y) (simp_all add: next_yield_def)
  with assms Call show ?thesis
    by (cases "lpc h") (auto simp: handle_inv_def hstep_def Wait_select_def Wait_return_def pending_yield_def)
next
  case (CancelCtx i)
  have "next_yield y (CancelCtx i) = y" by (cases y) (simp_all add: next_yield_def)
  with assms CancelCtx show ?thesis
    by (cases "lpc h") (auto simp: handle_inv_def hstep_def Wait_select_def Wait_return_def pending_yield_def)
next
  case (SelectDone i)
  have "next_yield y (SelectDone i) = y" by (cases y) (simp_all add: next_yield_def)
  with assms SelectDone show ?thesis
    by (cases "lpc h") (auto simp: handle_inv_def hstep_def Wait_select_def Wait_return_def pending_yield_def)
next
  case (SelectCtx i)
  have "next_yield y (SelectCtx i) = y" by (cases y) (simp_all add: next_yield_def)
  with assms SelectCtx show ?thesis
    by (cases "lpc h") (auto simp: handle_inv_def hstep_def Wait_select_def Wait_return_def pending_yield_def)
next
  case (Return i)
  have "next_yield y (Return i) = y" by (cases y) (simp_all add: next_yield_def)
  with assms Return show ?thesis
    by (cases "lpc h") (auto simp: handle_inv_def hstep_def Wait_select_def Wait_return_def pending_yield_def)
qed

lemma handle_inv_run: "handle_inv (source_yield es) (hrun es newHandleResult)"
proof (induction es rule: rev_induct)
  case Nil
  show ?case by (simp add: handle_inv_new)
next
  case (snoc e es)
  then show ?case by (simp add: hrun_snoc source_yield_snoc handle_inv_step)
qed

lemma delivered_yield:
  "handle_inv y h \<Longrightarrow> doneCh_closed h \<Longrightarrow> y = Some (result h)"
  by (cases "lpc h") (simp_all add: handle_inv_def)

lemma handle_inv_done:
  "handle_inv y h \<Longrightarrow> waiters h i = Ret DoneCase v \<Longrightarrow> doneCh_closed h \<and> v = result h"
  unfolding handle_inv_def by blast

lemma handle_inv_ctx:
  "handle_inv y h \<Longrightarrow> waiters h i = Ret CtxCase v \<Longrightarrow> v = None \<and> ctx_done h i"
  unfolding handle_inv_def by blast

lemma handle_inv_took:
  "handle_inv y h \<Longrightarrow> waiters h i = TookDone \<Longrightarrow> doneCh_closed h"
  unfolding handle_inv_def by blast

lemma ctx_done_step: "ctx_done (hstep e h) i \<Longrightarrow> ctx_done h i \<or> e = CancelCtx i"
  by (cases e; cases "lpc h"; cases "waitCh h")
     (auto simp: hstep_def Wait_select_def Wait_return_def listener_step_def split: if_splits)

lemma ctx_done_run: "ctx_done (hrun es h) i \<Longrightarrow> ctx_done h i \<or> CancelCtx i \<in> set es"
proof (induction es arbitrary: h)
  case Nil
  then show ?case by simp
next
  case (Cons e es)
  from Cons.IH [of "hstep e h"] Cons.prems
  have "ctx_done (hstep e h) i \<or> CancelCtx i \<in> set es" by simp
  then show ?case using ctx_done_step [of e h i] by auto
qed

lemma called_step: "waiters h i \<noteq> NotCalled \<or> e = Call i \<Longrightarrow> waiters (hstep e h) i \<noteq> NotCalled"
  by (cases e; cases "lpc h"; cases "waitCh h")
     (auto simp: hstep_def Wait_select_def Wait_return_def listener_step_def split: if_splits)

lemma called_run:
  "waiters h i \<noteq> NotCalled \<or> Call i \<in> set es \<Longrightarrow> waiters (hrun es h) i \<noteq> NotCalled"
proof (induction es arbitrary: h)
  case Nil
  then show ?case by simp
next
  case (Cons e es)
  show ?case
  proof (cases "waiters h i \<noteq> NotCalled \<or> e = Call i")
    case True
    then have "waiters (hstep e h) i \<noteq> NotCalled" by (rule called_step)
    with Cons.IH [of "hstep e h"] show ?thesis by simp
  next
    case False
    with Cons.prems have "Call i \<in> set es" by auto
    with Cons.IH [of "hstep e h"] show ?thesis by simp
  qed
qed

text \<open>
  C1 as stated fails on the word "distinct": the source is closed without a value, the
  listener stores nil, and the caller that observes the delivered signal returns the
  same nil as the caller that gave up.
\<close>

theorem nil_result_equals_no_result:
  "source_yield closed_schedule = Some None
   \<and> waiters (hrun closed_schedule newHandleResult) 0 = Ret DoneCase None
   \<and> waiters (hrun closed_schedule newHandleResult) 1 = Ret CtxCase None"
  by (simp add: closed_schedule_def newHandleResult_def hstep_def Wait_select_def Wait_return_def listener_step_def)

text \<open>
  C1, amended. In every run, with any number of callers entering \<open>Wait\<close> before or
  after the delivery, a call that leaves through the \<open>doneCh\<close> case returns the
  value the source yielded, which is the stored \<open>h.result\<close> and the same for all
  such calls; a call made after the delivery does return it. A call that leaves through
  its cancelled context returns nil, which differs from every non-nil result; its steps
  change nothing but its own context flag and its own state, so they do not affect what
  the other callers observe.
\<close>

theorem Wait_returns_stored_value:
  "(waiters (hrun es newHandleResult) i = Ret DoneCase v \<longrightarrow>
      source_yield es = Some v \<and> result (hrun es newHandleResult) = v)
   \<and> (waiters (hrun es newHandleResult) i = Ret DoneCase v
        \<and> waiters (hrun es newHandleResult) j = Ret DoneCase w \<longrightarrow> v = w)
   \<and> (waiters (hrun es newHandleResult) k = Ret CtxCase u \<longrightarrow> u = None)
   \<and> (waiters (hrun es newHandleResult) k = Ret CtxCase u
        \<and> waiters (hrun es newHandleResult) i = Ret DoneCase (Some x) \<longrightarrow> u \<noteq> Some x)
   \<and> (doneCh_closed g \<and> waiters g n = NotCalled \<longrightarrow>
        waiters (hrun [Call n, SelectDone n, Return n] g) n = Ret DoneCase (result g))
   \<and> (waiters h k = Selecting \<and> ctx_done h k \<longrightarrow>
        waiters (hstep (SelectCtx k) h) k = Ret CtxCase None)
   \<and> (waiters h k = Selecting \<and> \<not> doneCh_closed h \<longrightarrow> hstep (SelectDone k) h = h)
   \<and> hstep (CancelCtx k) h = h\<lparr>ctx_done := (ctx_done h)(k := True)\<rparr>
   \<and> hstep (SelectCtx k) h = h\<lparr>waiters := (waiters h)(k := waiters (hstep (SelectCtx k) h) k)\<rparr>"
proof -
  let ?t = "hrun es newHandleResult"
  have inv: "handle_inv (source_yield es) ?t" by (rule handle_inv_run)
  have a: "source_yield es = Some v \<and> result ?t = v" if "waiters ?t i = Ret DoneCase v"
  proof -
    from handle_inv_done [OF inv that] have "doneCh_closed ?t" "v = result ?t"
      by simp_all
    with delivered_yield [OF inv] show ?thesis by simp
  qed
  have b: "v = w" if "waiters ?t i = Ret DoneCase v \<and> waiters ?t j = Ret DoneCase w"
    using handle_inv_done [OF inv, of i v] handle_inv_done [OF inv, of j w] that by simp
  have c: "u = None" if "waiters ?t k = Ret CtxCase u"
    using handle_inv_ctx [OF inv that] by simp
  have d: "doneCh_closed g \<and> waiters g n = NotCalled \<longrightarrow>
        waiters (hrun [Call n, SelectDone n, Return n] g) n = Ret DoneCase (result g)"
    by (simp add: hstep_def Wait_select_def Wait_return_def)
  have e: "waiters h k = Selecting \<and> ctx_done h k \<longrightarrow>
        waiters (hstep (SelectCtx k) h) k = Ret CtxCase None"
    by (simp add: hstep_def Wait_select_def Wait_return_def)
  have e': "waiters h k = Selecting \<and> \<not> doneCh_closed h \<longrightarrow> hstep (SelectDone k) h = h"
    by (simp add: hstep_def Wait_select_def Wait_return_def)
  have f: "hstep (CancelCtx k) h = h\<lparr>ctx_done := (ctx_done h)(k := True)\<rparr>"
    by (simp add: hstep_def Wait_select_def Wait_return_def)
  have g: "hstep (SelectCtx k) h = h\<lparr>waiters := (waiters h)(k := waiters (hstep (SelectCtx k) h) k)\<rparr>"
    by (simp add: hstep_def Wait_select_def Wait_return_def)
  from a b c d e e' f g show ?thesis by blast
qed

lemma exit_run:
  "waiters (hrun exit_schedule newHandleResult) 0 = Ret DoneCase (Some 2)"
  "waiters (hrun exit_schedule newHandleResult) 2 = Ret DoneCase (Some 2)"
  "waiters (hrun exit_schedule newHandleResult) 3 = Ret CtxCase None"
  "result (hrun exit_schedule newHandleResult) = Some 2"
  "source_yield exit_schedule = Some (Some 2)"
  by (simp_all add: exit_schedule_def newHandleResult_def hstep_def Wait_select_def Wait_return_def listener_step_def)

lemma both_ready_run:
  "hrun both_ready_schedule newHandleResult =
     \<lparr>waitCh = [], waitCh_closed = False, lpc = LExit, result = Some 2, doneCh_closed = True,
      waiters = (\<lambda>i. NotCalled)(3 := Selecting), ctx_done = (\<lambda>i. False)(3 := True)\<rparr>"
  by (simp add: both_ready_schedule_def newHandleResult_def hstep_def Wait_select_def Wait_return_def listener_step_def)

lemma gave_up_run:
  "hrun gave_up_schedule newHandleResult =
     \<lparr>waitCh = [], waitCh_closed = False, lpc = LRecv, result = None, doneCh_closed = False,
      waiters = (\<lambda>i. NotCalled)(3 := Selecting), ctx_done = (\<lambda>i. False)(3 := True)\<rparr>"
  by (simp add: gave_up_schedule_def newHandleResult_def hstep_def Wait_select_def Wait_return_def)

theorem Wait_returns_stored_value_witness:
  "waiters (hrun exit_schedule newHandleResult) 0 = Ret DoneCase (Some 2)
   \<and> waiters (hrun exit_schedule newHandleResult) 2 = Ret DoneCase (Some 2)
   \<and> waiters (hrun exit_schedule newHandleResult) 3 = Ret CtxCase None
   \<and> source_yield exit_schedule = Some (Some 2)
   \<and> result (hrun exit_schedule newHandleResult) = Some 2
   \<and> doneCh_closed (hrun both_ready_schedule newHandleResult)
   \<and> waiters (hrun both_ready_schedule newHandleResult) 7 = NotCalled
   \<and> waiters (hrun [Call 7, SelectDone 7, Return 7] (hrun both_ready_schedule newHandleResult)) 7
       = Ret DoneCase (Some 2)
   \<and> waiters (hrun gave_up_schedule newHandleResult) 3 = Selecting
   \<and> ctx_done (hrun gave_up_schedule newHandleResult) 3
   \<and> \<not> doneCh_closed (hrun gave_up_schedule newHandleResult)
   \<and> hstep (SelectDone 3) (hrun gave_up_schedule newHandleResult)
       = hrun gave_up_schedule newHandleResult
   \<and> waiters (hstep (SelectCtx 3) (hrun gave_up_schedule newHandleResult)) 3
       = Ret CtxCase None"
  using Wait_returns_stored_value
          [where es = exit_schedule and i = 0 and j = 2 and k = 3 and v = "Some 2"
             and w = "Some 2" and u = None and x = 2 and n = 7
             and g = "hrun both_ready_schedule newHandleResult"
             and h = "hrun gave_up_schedule newHandleResult"]
  by (simp add: exit_run both_ready_run gave_up_run)

text \<open>
  C8. In a run in which the producer neither sends on the source nor closes it,
  \<open>doneCh\<close> is never closed, and a caller whose context is never cancelled has not
  returned: once it has entered \<open>Wait\<close> it is in the \<open>select\<close>, however long the
  run.
\<close>

theorem Wait_blocks_without_delivery:
  assumes "source_yield es = None" and "CancelCtx i \<notin> set es"
  shows "\<not> doneCh_closed (hrun es newHandleResult)
       \<and> (waiters (hrun es newHandleResult) i = NotCalled
            \<or> waiters (hrun es newHandleResult) i = Selecting)
       \<and> (Call i \<in> set es \<longrightarrow> waiters (hrun es newHandleResult) i = Selecting)"
proof -
  let ?t = "hrun es newHandleResult"
  have inv: "handle_inv None ?t"
    using handle_inv_run [of es] assms(1) by simp
  have nd: "\<not> doneCh_closed ?t"
    using delivered_yield [OF inv] by auto
  have nc: "\<not> ctx_done ?t i"
    using ctx_done_run [of es newHandleResult i] assms(2)
    by (auto simp: newHandleResult_def)
  have w: "waiters ?t i = NotCalled \<or> waiters ?t i = Selecting"
  proof (cases "waiters ?t i")
    case TookDone
    with handle_inv_took [OF inv] nd show ?thesis by simp
  next
    case (Ret br v)
    with handle_inv_done [OF inv, of i v] handle_inv_ctx [OF inv, of i v] nd nc
    show ?thesis by (cases br) simp_all
  qed simp_all
  have c: "Call i \<in> set es \<longrightarrow> waiters ?t i = Selecting"
    using w called_run [of newHandleResult i es] by auto
  from nd w c show ?thesis by blast
qed

theorem Wait_blocks_without_delivery_witness:
  "source_yield abandoned_schedule = None
   \<and> CancelCtx 0 \<notin> set abandoned_schedule
   \<and> Call 0 \<in> set abandoned_schedule
   \<and> waiters (hrun abandoned_schedule newHandleResult) 0 = Selecting
   \<and> waiters (hrun abandoned_schedule newHandleResult) 1 = Ret CtxCase None"
  using Wait_blocks_without_delivery [where es = abandoned_schedule and i = 0]
  by (simp add: abandoned_schedule_def newHandleResult_def hstep_def Wait_select_def Wait_return_def listener_step_def)

text \<open>
  C10. The no-result indication is nil: a call that leaves through its cancelled
  context returns nil, and when the source yields nil (a nil pointer is sent, or the
  source is closed without a value) a call that observes the delivery returns nil as
  well, so the two calls return the same value.
\<close>

theorem cancelled_Wait_returns_nil_like_nil_result:
  "(waiters (hrun es newHandleResult) k = Ret CtxCase u \<longrightarrow> u = None)
   \<and> (source_yield es = Some None \<and> waiters (hrun es newHandleResult) i = Ret DoneCase v \<longrightarrow>
        v = None)
   \<and> (source_yield es = Some None \<and> waiters (hrun es newHandleResult) i = Ret DoneCase v
        \<and> waiters (hrun es newHandleResult) k = Ret CtxCase u \<longrightarrow> u = v)"
proof -
  let ?t = "hrun es newHandleResult"
  have inv: "handle_inv (source_yield es) ?t" by (rule handle_inv_run)
  have a: "u = None" if "waiters ?t k = Ret CtxCase u"
    using handle_inv_ctx [OF inv that] by simp
  have b: "v = None" if "source_yield es = Some None \<and> waiters ?t i = Ret DoneCase v"
  proof -
    from that have "waiters ?t i = Ret DoneCase v" by simp
    from handle_inv_done [OF inv this] have "doneCh_closed ?t" "v = result ?t"
      by simp_all
    with delivered_yield [OF inv] that show ?thesis by simp
  qed
  from a b show ?thesis by blast
qed

theorem cancelled_Wait_returns_nil_like_nil_result_witness:
  "source_yield [Call 5, CancelCtx 5, Send None, Listener, Listener, Listener,
                 Call 4, SelectCtx 5, SelectDone 4, Return 4 :: int hevent] = Some None
   \<and> waiters (hrun [Call 5, CancelCtx 5, Send None, Listener, Listener, Listener,
                     Call 4, SelectCtx 5, SelectDone 4, Return 4 :: int hevent]
                newHandleResult) 4 = Ret DoneCase None
   \<and> waiters (hrun [Call 5, CancelCtx 5, Send None, Listener, Listener, Listener,
                     Call 4, SelectCtx 5, SelectDone 4, Return 4 :: int hevent]
                newHandleResult) 5 = Ret CtxCase None"
  using cancelled_Wait_returns_nil_like_nil_result
          [where es = "[Call 5, CancelCtx 5, Send None, Listener, Listener, Listener,
                        Call 4, SelectCtx 5, SelectDone 4, Return 4 :: int hevent]"
             and i = 4 and k = 5 and u = None and v = None]
  by (simp add: newHandleResult_def hstep_def Wait_select_def Wait_return_def listener_step_def)

end
